theory Spec2Isabelle
  imports Main "HOL-Library.AList"
begin

section \<open>Strings\<close>

text \<open>
  A Python \<open>str\<close> is a sequence of Unicode code points; \<open>len\<close> counts code points.
  A code point is a natural number, and an ASCII literal of the source is written
  \<open>ustr ''...''\<close>.
\<close>

type_synonym codepoint = nat
type_synonym pystr = "codepoint list"

definition ustr :: "string \<Rightarrow> pystr" where
  "ustr s = map of_char s"

text \<open>
  \<open>str.isspace\<close> on one code point. The regular-expression class \<open>\s\<close> on a \<open>str\<close>
  pattern and \<open>str.strip()\<close> both use this set.
\<close>

definition isspace :: "codepoint \<Rightarrow> bool" where
  "isspace c =
     ((9 \<le> c \<and> c \<le> 13) \<or> (28 \<le> c \<and> c \<le> 32) \<or> c = 133 \<or> c = 160 \<or> c = 5760 \<or>
      (8192 \<le> c \<and> c \<le> 8202) \<or> c = 8232 \<or> c = 8233 \<or> c = 8239 \<or> c = 8287 \<or> c = 12288)"

definition strip :: "pystr \<Rightarrow> pystr" where
  "strip s = rev (dropWhile isspace (rev (dropWhile isspace s)))"

text \<open>\<open>string.ascii_letters\<close>, \<open>string.digits\<close> of the Python library.\<close>

definition ascii_letters :: pystr where
  "ascii_letters = ustr ''abcdefghijklmnopqrstuvwxyzABCDEFGHIJKLMNOPQRSTUVWXYZ''"

definition digits :: pystr where
  "digits = ustr ''0123456789''"

definition ascii_alnum :: "codepoint \<Rightarrow> bool" where
  "ascii_alnum c = ((48 \<le> c \<and> c \<le> 57) \<or> (65 \<le> c \<and> c \<le> 90) \<or> (97 \<le> c \<and> c \<le> 122))"

text \<open>
  \<open>str.isalnum\<close>. On ASCII it accepts exactly the letters and the digits; beyond ASCII
  it follows the Unicode character database of the running interpreter, which is the
  parameter \<open>ucd\<close> (asked only about code points from 128 on).
\<close>

definition isalnum_char :: "(codepoint \<Rightarrow> bool) \<Rightarrow> codepoint \<Rightarrow> bool" where
  "isalnum_char ucd c = (if c < 128 then ascii_alnum c else ucd c)"

definition isalnum :: "(codepoint \<Rightarrow> bool) \<Rightarrow> pystr \<Rightarrow> bool" where
  "isalnum ucd s = (s \<noteq> [] \<and> list_all (isalnum_char ucd) s)"

text \<open>
  The part of the database for U+0080 to U+00FF (Latin-1 Supplement): the letters
  and the numeric characters (superscript digits, vulgar fractions) of that block.
\<close>

definition latin1_alnum :: "codepoint \<Rightarrow> bool" where
  "latin1_alnum c =
     (c = 170 \<or> c = 178 \<or> c = 179 \<or> c = 181 \<or> c = 185 \<or> c = 186 \<or> (188 \<le> c \<and> c \<le> 190) \<or>
      (192 \<le> c \<and> c \<le> 214) \<or> (216 \<le> c \<and> c \<le> 246) \<or> (248 \<le> c \<and> c \<le> 255))"

section \<open>Regular expressions\<close>

text \<open>
  The fragment of Python's \<open>re\<close> that \<open>is_valid_url\<close> uses: character classes,
  alternation, sequence and repetition. \<open>re_match\<close> is \<open>bool(pattern.match(s))\<close> for a
  pattern that ends in \<open>$\<close>: the whole subject has to be consumed. Matching is by
  derivatives, so it runs.
\<close>

datatype pat =
    Never
  | Empty
  | Class "codepoint \<Rightarrow> bool"
  | Choice pat pat
  | Then pat pat
  | Many pat

fun nullable :: "pat \<Rightarrow> bool" where
  "nullable Never = False"
| "nullable Empty = True"
| "nullable (Class P) = False"
| "nullable (Choice a b) = (nullable a \<or> nullable b)"
| "nullable (Then a b) = (nullable a \<and> nullable b)"
| "nullable (Many a) = True"

fun deriv :: "codepoint \<Rightarrow> pat \<Rightarrow> pat" where
  "deriv c Never = Never"
| "deriv c Empty = Never"
| "deriv c (Class P) = (if P c then Empty else Never)"
| "deriv c (Choice a b) = Choice (deriv c a) (deriv c b)"
| "deriv c (Then a b) =
     (if nullable a then Choice (Then (deriv c a) b) (deriv c b) else Then (deriv c a) b)"
| "deriv c (Many a) = Then (deriv c a) (Many a)"

fun re_match :: "pat \<Rightarrow> pystr \<Rightarrow> bool" where
  "re_match r [] = nullable r"
| "re_match r (c # cs) = re_match (deriv c r) cs"

text \<open>
  A literal character under \<open>re.IGNORECASE\<close> on a \<open>str\<close> pattern: the two ASCII cases
  of a letter, and the non-ASCII code points whose case folding is an ASCII letter
  (U+017F for s, U+212A for k, U+0130 and U+0131 for i).
\<close>

definition lower_ascii :: "codepoint \<Rightarrow> codepoint" where
  "lower_ascii c = (if 65 \<le> c \<and> c \<le> 90 then c + 32 else c)"

definition ignorecase_eq :: "codepoint \<Rightarrow> codepoint \<Rightarrow> bool" where
  "ignorecase_eq l c =
     (lower_ascii c = lower_ascii l \<or>
      (lower_ascii l = 115 \<and> c = 383) \<or>
      (lower_ascii l = 107 \<and> c = 8490) \<or>
      (lower_ascii l = 105 \<and> (c = 304 \<or> c = 305)))"

fun literal :: "pystr \<Rightarrow> pat" where
  "literal [] = Empty"
| "literal (l # ls) = Then (Class (ignorecase_eq l)) (literal ls)"

definition optional :: "pat \<Rightarrow> pat" where
  "optional r = Choice r Empty"

text \<open>\<open>.\<close> without \<open>re.DOTALL\<close>: any character but the newline.\<close>

definition any_char :: pat where
  "any_char = Class (\<lambda>c. c \<noteq> 10)"

text \<open>
  \<open>$\<close> without \<open>re.MULTILINE\<close>: the end of the subject, or just before a newline that
  ends the subject.
\<close>

definition end_of_string :: pat where
  "end_of_string = optional (Class (\<lambda>c. c = 10))"

section \<open>app/utils.py: the validators\<close>

text \<open>
  The pattern \<^verbatim>\<open>^(https?|ftp)://[^\s/$.?#].[^\s]*$\<close>, compiled with \<open>re.IGNORECASE\<close>.
\<close>

definition url_pattern :: pat where
  "url_pattern =
     Then (Choice (Then (literal (ustr ''http'')) (optional (literal (ustr ''s''))))
                  (literal (ustr ''ftp'')))
    (Then (literal (ustr ''://''))
    (Then (Class (\<lambda>c. \<not> (isspace c \<or> c \<in> set (ustr ''/$.?#''))))
    (Then any_char
    (Then (Many (Class (\<lambda>c. \<not> isspace c)))
          end_of_string))))"

text \<open>A value that a JSON request may carry in its \<open>url\<close> field.\<close>

datatype pyval = Str pystr | Num int | NoneVal | Other

fun is_valid_url :: "pyval \<Rightarrow> bool" where
  "is_valid_url (Str url) = (if url = [] then False else re_match url_pattern (strip url))"
| "is_valid_url v = False"

definition validate_short_code :: "(codepoint \<Rightarrow> bool) \<Rightarrow> pystr \<Rightarrow> bool" where
  "validate_short_code ucd short_code =
     (if short_code = [] \<or> length short_code \<noteq> 6 then False else isalnum ucd short_code)"

section \<open>The language of a pattern\<close>

text \<open>
  What a pattern accepts, as a set of strings; the matcher is compared with it below.
  \<open>scheme_ok\<close> and \<open>first_ok\<close> name the scheme alternatives and the class
  \<^verbatim>\<open>[^\s/$.?#]\<close> of \<open>url_pattern\<close>.
\<close>

inductive_set repeats :: "pystr set \<Rightarrow> pystr set" for A :: "pystr set" where
  repeats_none: "[] \<in> repeats A"
| repeats_more: "u \<in> A \<Longrightarrow> v \<in> repeats A \<Longrightarrow> u @ v \<in> repeats A"

fun lang :: "pat \<Rightarrow> pystr set" where
  "lang Never = {}"
| "lang Empty = {[]}"
| "lang (Class P) = {[c] |c. P c}"
| "lang (Choice a b) = lang a \<union> lang b"
| "lang (Then a b) = {u @ v |u v. u \<in> lang a \<and> v \<in> lang b}"
| "lang (Many a) = repeats (lang a)"

definition scheme_ok :: "pystr \<Rightarrow> bool" where
  "scheme_ok sch =
     (list_all2 ignorecase_eq (ustr ''http'') sch \<or>
      list_all2 ignorecase_eq (ustr ''https'') sch \<or>
      list_all2 ignorecase_eq (ustr ''ftp'') sch)"

definition first_ok :: "codepoint \<Rightarrow> bool" where
  "first_ok c = (\<not> isspace c \<and> c \<notin> set (ustr ''/$.?#''))"

text \<open>
  The acceptance rule in the words of the specification, to be compared with
  \<open>is_valid_url\<close>: after trimming, a scheme, \<open>://\<close>, one character that is neither
  whitespace nor one of \<open>/ . ? #\<close>, then non-whitespace characters to the end.
\<close>

fun claimed_after_scheme :: "pystr \<Rightarrow> bool" where
  "claimed_after_scheme (a # b # c # c1 # rest) =
     (a = 58 \<and> b = 47 \<and> c = 47 \<and> \<not> isspace c1 \<and> c1 \<notin> set (ustr ''/.?#'') \<and>
      list_all (\<lambda>x. \<not> isspace x) rest)"
| "claimed_after_scheme t = False"

definition claimed_valid_url :: "pystr \<Rightarrow> bool" where
  "claimed_valid_url s =
     (let t = strip s
      in t \<noteq> [] \<and>
         ((list_all2 ignorecase_eq (ustr ''http'') (take 4 t) \<and> claimed_after_scheme (drop 4 t)) \<or>
          (list_all2 ignorecase_eq (ustr ''https'') (take 5 t) \<and> claimed_after_scheme (drop 5 t)) \<or>
          (list_all2 ignorecase_eq (ustr ''ftp'') (take 3 t) \<and> claimed_after_scheme (drop 3 t))))"

section \<open>app/utils.py: the code generator\<close>

text \<open>
  The random source is a tape of draws and a position on it: \<open>random.choice(chars)\<close>
  reads the draw at the position, takes the character at that index (reduced below
  the length of \<open>chars\<close>, which is not empty) and moves the position on by one. Every
  result carries the position reached, so the number of candidates drawn is visible.
  \<open>raise Exception("Unable to generate unique short code")\<close> is the error
  \<open>GenerationExhausted\<close>.
\<close>

datatype error = GenerationExhausted

type_synonym rng = "nat \<Rightarrow> nat"

definition chars :: pystr where
  "chars = ascii_letters @ digits"

definition random_choice :: "rng \<Rightarrow> nat \<Rightarrow> codepoint \<times> nat" where
  "random_choice g pos = (chars ! (g pos mod length chars), Suc pos)"

text \<open>\<open>''.join(random.choice(chars) for _ in range(length))\<close>\<close>

fun join_choices :: "rng \<Rightarrow> nat \<Rightarrow> nat \<Rightarrow> pystr \<times> nat" where
  "join_choices g pos 0 = ([], pos)"
| "join_choices g pos (Suc n) =
     (let (c, pos1) = random_choice g pos;
          (cs, pos2) = join_choices g pos1 n
      in (c # cs, pos2))"

definition max_attempts :: nat where
  "max_attempts = 100"

text \<open>
  The loop \<open>for _ in range(max_attempts)\<close>, by the number of attempts that are left.
  \<open>range(length)\<close> is empty for a length below 1.
\<close>

fun attempts :: "nat \<Rightarrow> int \<Rightarrow> pystr set option \<Rightarrow> rng \<Rightarrow> nat \<Rightarrow> (error + pystr) \<times> nat" where
  "attempts 0 len existing_codes g pos = (Inl GenerationExhausted, pos)"
| "attempts (Suc k) len existing_codes g pos =
     (let (code, pos') = join_choices g pos (nat len)
      in if (case existing_codes of None \<Rightarrow> True | Some ex \<Rightarrow> code \<notin> ex)
         then (Inr code, pos')
         else attempts k len existing_codes g pos')"

definition generate_short_code ::
    "int \<Rightarrow> pystr set option \<Rightarrow> rng \<Rightarrow> nat \<Rightarrow> (error + pystr) \<times> nat" where
  "generate_short_code len existing_codes g pos = attempts max_attempts len existing_codes g pos"

section \<open>app/models.py: the store\<close>

text \<open>
  One entry is the dictionary \<open>{url, clicks, created_at}\<close>. The store's \<open>urls\<close> is a
  Python \<open>dict\<close>: an association list in insertion order, where assigning to a key
  that is present replaces its value in place. The lock makes \<open>save_url\<close> and
  \<open>increment_clicks\<close> atomic, so each is one step on the store. The clock
  (\<open>datetime.utcnow().isoformat()\<close>) is the argument \<open>now\<close>.
\<close>

record entry =
  url :: pystr
  clicks :: int
  created_at :: pystr

record URLStore =
  urls :: "(pystr \<times> entry) list"

definition init_store :: URLStore where
  "init_store = \<lparr>urls = []\<rparr>"

definition save_url :: "URLStore \<Rightarrow> pystr \<Rightarrow> pystr \<Rightarrow> pystr \<Rightarrow> URLStore" where
  "save_url st short_code original_url now =
     st\<lparr>urls := AList.update short_code
                    \<lparr>url = original_url, clicks = 0, created_at = now\<rparr> (urls st)\<rparr>"

definition get_url :: "URLStore \<Rightarrow> pystr \<Rightarrow> entry option" where
  "get_url st short_code = map_of (urls st) short_code"

definition code_exists :: "URLStore \<Rightarrow> pystr \<Rightarrow> bool" where
  "code_exists st short_code = (short_code \<in> set (map fst (urls st)))"

definition increment_clicks :: "URLStore \<Rightarrow> pystr \<Rightarrow> bool \<times> URLStore" where
  "increment_clicks st short_code =
     (if short_code \<in> set (map fst (urls st))
      then (True, st\<lparr>urls := AList.map_entry short_code
                                (\<lambda>e. e\<lparr>clicks := clicks e + 1\<rparr>) (urls st)\<rparr>)
      else (False, st))"

text \<open>The four operations of the store, and a run of them from a state.\<close>

datatype store_op =
    Save pystr pystr pystr
  | Get pystr
  | Incr pystr
  | Exists pystr

fun apply_op :: "URLStore \<Rightarrow> store_op \<Rightarrow> URLStore" where
  "apply_op st (Save c u now) = save_url st c u now"
| "apply_op st (Get c) = st"
| "apply_op st (Incr c) = snd (increment_clicks st c)"
| "apply_op st (Exists c) = st"

definition run :: "URLStore \<Rightarrow> store_op list \<Rightarrow> URLStore" where
  "run st ops = foldl apply_op st ops"

fun saves_code :: "pystr \<Rightarrow> store_op \<Rightarrow> bool" where
  "saves_code c (Save c' u now) = (c' = c)"
| "saves_code c other = False"

section \<open>app/main.py: the HTTP handlers\<close>

text \<open>
  A response is \<open>jsonify(body), status\<close> or \<open>flask_redirect(location, code)\<close>. The
  application state is the store and the position of the random source. The body of
  a shorten request, \<open>request.get_json()\<close>, is a JSON object (its fields in a list) or
  absent; \<open>request.host_url\<close> and the clock are arguments. The handler's
  \<open>except Exception\<close> catches the generator's error and answers 500.
\<close>

datatype response =
    JsonResponse "(string \<times> pyval) list" nat
  | RedirectResponse pystr nat

fun status :: "response \<Rightarrow> nat" where
  "status (JsonResponse body code) = code"
| "status (RedirectResponse location code) = code"

record app_state =
  url_store :: URLStore
  rng_pos :: nat

text \<open>The string that a \<open>str\<close> value carries.\<close>

fun str_value :: "pyval \<Rightarrow> pystr" where
  "str_value (Str s) = s"
| "str_value v = []"

definition shorten_url ::
    "rng \<Rightarrow> pystr \<Rightarrow> pystr \<Rightarrow> (pystr \<times> pyval) list option \<Rightarrow> app_state \<Rightarrow> response \<times> app_state" where
  "shorten_url g host_url now data st =
     (case (case data of None \<Rightarrow> None | Some d \<Rightarrow> map_of d (ustr ''url'')) of
        None \<Rightarrow> (JsonResponse [(''error'', Str (ustr ''URL is required''))] 400, st)
      | Some original_url \<Rightarrow>
          if \<not> is_valid_url original_url
          then (JsonResponse [(''error'', Str (ustr ''Invalid URL format''))] 400, st)
          else
            (case generate_short_code 6 (Some (set (map fst (urls (url_store st))))) g (rng_pos st) of
               (Inl e, pos') \<Rightarrow>
                 (JsonResponse [(''error'', Str (ustr ''Internal server error''))] 500,
                  st\<lparr>rng_pos := pos'\<rparr>)
             | (Inr short_code, pos') \<Rightarrow>
                 (JsonResponse [(''short_code'', Str short_code),
                                (''short_url'', Str (host_url @ short_code))] 201,
                  st\<lparr>url_store := save_url (url_store st) short_code (str_value original_url) now,
                     rng_pos := pos'\<rparr>)))"

definition redirect_url :: "(codepoint \<Rightarrow> bool) \<Rightarrow> pystr \<Rightarrow> app_state \<Rightarrow> response \<times> app_state" where
  "redirect_url ucd short_code st =
     (if \<not> validate_short_code ucd short_code
      then (JsonResponse [(''error'', Str (ustr ''Invalid short code format''))] 404, st)
      else
        (case get_url (url_store st) short_code of
           None \<Rightarrow> (JsonResponse [(''error'', Str (ustr ''Short code not found''))] 404, st)
         | Some url_data \<Rightarrow>
             (RedirectResponse (url url_data) 302,
              st\<lparr>url_store := snd (increment_clicks (url_store st) short_code)\<rparr>)))"

definition get_stats :: "(codepoint \<Rightarrow> bool) \<Rightarrow> pystr \<Rightarrow> app_state \<Rightarrow> response \<times> app_state" where
  "get_stats ucd short_code st =
     (if \<not> validate_short_code ucd short_code
      then (JsonResponse [(''error'', Str (ustr ''Invalid short code format''))] 404, st)
      else
        (case get_url (url_store st) short_code of
           None \<Rightarrow> (JsonResponse [(''error'', Str (ustr ''Short code not found''))] 404, st)
         | Some url_data \<Rightarrow>
             (JsonResponse [(''url'', Str (url url_data)), (''clicks'', Num (clicks url_data)),
                            (''created_at'', Str (created_at url_data))] 200,
              st)))"

definition init_app :: app_state where
  "init_app = \<lparr>url_store = init_store, rng_pos = 0\<rparr>"

section \<open>Properties of the store\<close>

lemma get_url_save_url:
  "get_url (save_url st c u now) c' =
     (if c' = c then Some \<lparr>url = u, clicks = 0, created_at = now\<rparr> else get_url st c')"
  by (simp add: get_url_def save_url_def update_conv')

lemma get_url_increment_clicks:
  "get_url (snd (increment_clicks st c)) c' =
     (if c' = c then map_option (\<lambda>e. e\<lparr>clicks := clicks e + 1\<rparr>) (get_url st c)
      else get_url st c')"
proof (cases "c \<in> set (map fst (urls st))")
  case True
  then show ?thesis
    by (auto simp: get_url_def increment_clicks_def map_of_map_entry split: option.splits)
next
  case False
  then have "map_of (urls st) c = None"
    by (simp add: map_of_eq_None_iff)
  with False show ?thesis
    by (simp add: get_url_def increment_clicks_def)
qed

lemma code_exists_get_url: "code_exists st c \<longleftrightarrow> get_url st c \<noteq> None"
  by (simp add: code_exists_def get_url_def map_of_eq_None_iff)

text \<open>
  C2. After \<open>save_url st c u now\<close>, \<open>get_url\<close> on \<open>c\<close> gives the entry with \<open>url = u\<close>,
  \<open>clicks = 0\<close> and \<open>created_at = now\<close>, whatever the store held before, also when
  \<open>c\<close> was present: the old entry is replaced.
\<close>

theorem save_url_then_get_url:
  "get_url (save_url st c u now) c = Some \<lparr>url = u, clicks = 0, created_at = now\<rparr>"
  by (simp add: get_url_save_url)

text \<open>
  C10. \<open>code_exists\<close> answers true exactly when \<open>get_url\<close> returns an entry, in every
  state of the store, so in every state that a run of operations reaches.
\<close>

theorem code_exists_iff_get_url:
  "code_exists st c = (get_url st c \<noteq> None) \<and>
   code_exists (run init_store ops) c = (get_url (run init_store ops) c \<noteq> None)"
  by (simp add: code_exists_def get_url_def map_of_eq_None_iff)

lemma run_Nil: "run st [] = st"
  by (simp add: run_def)

lemma run_Cons: "run st (op # ops) = run (apply_op st op) ops"
  by (simp add: run_def)

lemma run_append: "run st (ops @ ops') = run (run st ops) ops'"
  by (simp add: run_def)

lemma get_url_apply_op:
  "get_url (apply_op st op) c =
     (case op of
        Save c' u now \<Rightarrow>
          if c = c' then Some \<lparr>url = u, clicks = 0, created_at = now\<rparr> else get_url st c
      | Incr c' \<Rightarrow>
          if c = c' then map_option (\<lambda>e. e\<lparr>clicks := clicks e + 1\<rparr>) (get_url st c)
          else get_url st c
      | Get c' \<Rightarrow> get_url st c
      | Exists c' \<Rightarrow> get_url st c)"
  by (cases op) (simp_all add: get_url_save_url get_url_increment_clicks)

lemma apply_op_present: "get_url st c \<noteq> None \<Longrightarrow> get_url (apply_op st op) c \<noteq> None"
  by (cases op) (auto simp: get_url_save_url get_url_increment_clicks)

lemma run_present: "get_url st c \<noteq> None \<Longrightarrow> get_url (run st ops) c \<noteq> None"
proof (induction ops arbitrary: st)
  case Nil
  then show ?case by (simp add: run_Nil)
next
  case (Cons op ops)
  from Cons.prems have "get_url (apply_op st op) c \<noteq> None"
    by (rule apply_op_present)
  then show ?case
    unfolding run_Cons by (rule Cons.IH)
qed

lemma run_without_save:
  "\<not> list_ex (saves_code c) ops \<Longrightarrow>
   get_url (run st ops) c =
     map_option (\<lambda>e. e\<lparr>clicks := clicks e + int (count_list ops (Incr c))\<rparr>) (get_url st c)"
proof (induction ops arbitrary: st)
  case Nil
  show ?case by (simp add: run_Nil option.map_ident)
next
  case (Cons op ops)
  from Cons.prems have rest: "\<not> list_ex (saves_code c) ops" and here: "\<not> saves_code c op"
    by simp_all
  have step: "get_url (run st (op # ops)) c =
      map_option (\<lambda>e. e\<lparr>clicks := clicks e + int (count_list ops (Incr c))\<rparr>)
        (get_url (apply_op st op) c)"
    unfolding run_Cons by (rule Cons.IH [OF rest])
  show ?case
  proof (cases "op = Incr c")
    case True
    then show ?thesis
      unfolding step
      by (simp add: get_url_increment_clicks option.map_comp comp_def add.assoc)
  next
    case False
    with here have "get_url (apply_op st op) c = get_url st c"
      by (cases op) (auto simp: get_url_save_url get_url_increment_clicks)
    with False show ?thesis
      unfolding step by simp
  qed
qed

lemma distinct_apply_op:
  "distinct (map fst (urls st)) \<Longrightarrow> distinct (map fst (urls (apply_op st op)))"
  by (cases op)
    (simp_all add: save_url_def increment_clicks_def distinct_update distinct_map_entry)

lemma distinct_run:
  "distinct (map fst (urls st)) \<Longrightarrow> distinct (map fst (urls (run st ops)))"
proof (induction ops arbitrary: st)
  case Nil
  then show ?case by (simp add: run_Nil)
next
  case (Cons op ops)
  then show ?case
    unfolding run_Cons by (simp add: distinct_apply_op)
qed

text \<open>
  C3. On a code that is present, \<open>increment_clicks\<close> returns true and adds one to
  the clicks of its entry; the entry's url and creation time and every other code
  are as before. On an absent code it returns false and the store is the same
  store. After \<open>save_url\<close> of \<open>c\<close>, any run of operations without a further save of
  \<open>c\<close> leaves \<open>c\<close> with as many clicks as the run increments \<open>c\<close>; so \<open>K\<close> increments
  in a row leave \<open>K\<close>.
\<close>

theorem increment_clicks_counts:
  "(get_url st c = Some e \<longrightarrow>
      fst (increment_clicks st c) = True \<and>
      get_url (snd (increment_clicks st c)) c = Some (e\<lparr>clicks := clicks e + 1\<rparr>) \<and>
      (\<forall>c'. c' \<noteq> c \<longrightarrow> get_url (snd (increment_clicks st c)) c' = get_url st c')) \<and>
   (get_url st c = None \<longrightarrow> increment_clicks st c = (False, st)) \<and>
   (\<not> list_ex (saves_code c) ops \<longrightarrow>
      map_option clicks (get_url (run (save_url st c u now) ops) c) =
        Some (int (count_list ops (Incr c)))) \<and>
   map_option clicks (get_url (run (save_url st c u now) (replicate K (Incr c))) c) =
     Some (int K)"
proof (intro conjI impI)
  assume present: "get_url st c = Some e"
  then have "c \<in> set (map fst (urls st))"
    by (auto simp: get_url_def dest: map_of_SomeD intro: rev_image_eqI)
  then show "fst (increment_clicks st c) = True"
    by (simp add: increment_clicks_def)
  from present show "get_url (snd (increment_clicks st c)) c = Some (e\<lparr>clicks := clicks e + 1\<rparr>)"
    by (simp add: get_url_increment_clicks)
  show "\<forall>c'. c' \<noteq> c \<longrightarrow> get_url (snd (increment_clicks st c)) c' = get_url st c'"
    by (simp add: get_url_increment_clicks)
next
  assume "get_url st c = None"
  then have "c \<notin> set (map fst (urls st))"
    by (simp add: get_url_def map_of_eq_None_iff)
  then show "increment_clicks st c = (False, st)"
    by (simp add: increment_clicks_def)
next
  assume "\<not> list_ex (saves_code c) ops"
  then show "map_option clicks (get_url (run (save_url st c u now) ops) c) =
      Some (int (count_list ops (Incr c)))"
    by (simp add: run_without_save get_url_save_url)
next
  have "\<not> list_ex (saves_code c) (replicate K (Incr c))"
    by (simp add: list_ex_iff)
  moreover have "count_list (replicate K (Incr c)) (Incr c) = K"
    by (induction K) simp_all
  ultimately show "map_option clicks
      (get_url (run (save_url st c u now) (replicate K (Incr c))) c) = Some (int K)"
    by (simp add: run_without_save get_url_save_url)
qed

theorem increment_clicks_counts_witness:
  "fst (increment_clicks (save_url init_store [97] [98] [99]) [97]) = True \<and>
   get_url (snd (increment_clicks (save_url init_store [97] [98] [99]) [97])) [97] =
     Some \<lparr>url = [98], clicks = 1, created_at = [99]\<rparr> \<and>
   increment_clicks init_store [97] = (False, init_store) \<and>
   map_option clicks (get_url (run (save_url init_store [97] [98] [99])
      [Incr [97], Get [97], Incr [100], Incr [97]]) [97]) = Some 2"
proof -
  have present: "get_url (save_url init_store [97] [98] [99]) [97] =
      Some \<lparr>url = [98], clicks = 0, created_at = [99]\<rparr>"
    by (simp add: get_url_save_url)
  have absent: "get_url init_store [97] = None"
    by (simp add: get_url_def init_store_def)
  have no_save: "\<not> list_ex (saves_code [97]) [Incr [97], Get [97], Incr [100], Incr [97]]"
    by simp
  note incr = increment_clicks_counts [THEN conjunct1, rule_format, OF present]
  note miss = increment_clicks_counts [THEN conjunct2, THEN conjunct1, rule_format, OF absent]
  note runs = increment_clicks_counts
    [THEN conjunct2, THEN conjunct2, THEN conjunct1, rule_format, OF no_save,
      of init_store "[98]" "[99]"]
  from incr miss runs show ?thesis
    by simp
qed

text \<open>
  C4, as the store behaves. In every state that a run of operations reaches from the
  empty store, each code has at most one entry; a code that is present stays present
  under every further run; and as long as the further run does not save that same
  code again, its url and creation time are the ones it had and its clicks are no
  fewer.
\<close>

theorem store_entries_persist:
  "distinct (map fst (urls (run init_store ops))) \<and>
   (get_url (run init_store ops) c = Some e \<longrightarrow>
      (\<exists>e'. get_url (run init_store (ops @ ops')) c = Some e' \<and>
         (\<not> list_ex (saves_code c) ops' \<longrightarrow>
            url e' = url e \<and> created_at e' = created_at e \<and> clicks e \<le> clicks e')))"
proof (intro conjI impI)
  show "distinct (map fst (urls (run init_store ops)))"
    by (rule distinct_run) (simp add: init_store_def)
next
  assume present: "get_url (run init_store ops) c = Some e"
  then have "get_url (run init_store ops) c \<noteq> None"
    by simp
  then have "get_url (run (run init_store ops) ops') c \<noteq> None"
    by (rule run_present)
  then obtain e' where e': "get_url (run init_store (ops @ ops')) c = Some e'"
    unfolding run_append by blast
  have "url e' = url e \<and> created_at e' = created_at e \<and> clicks e \<le> clicks e'"
    if "\<not> list_ex (saves_code c) ops'"
    using run_without_save [OF that, of "run init_store ops"] e' present
    unfolding run_append by auto
  with e' show "\<exists>e'. get_url (run init_store (ops @ ops')) c = Some e' \<and>
      (\<not> list_ex (saves_code c) ops' \<longrightarrow>
         url e' = url e \<and> created_at e' = created_at e \<and> clicks e \<le> clicks e')"
    by blast
qed

theorem store_entries_persist_witness:
  "get_url (run init_store [Save [97] [98] [99]]) [97] =
     Some \<lparr>url = [98], clicks = 0, created_at = [99]\<rparr> \<and>
   \<not> list_ex (saves_code [97]) [Incr [97], Save [100] [101] [102]] \<and>
   (\<exists>e'. get_url (run init_store ([Save [97] [98] [99]] @ [Incr [97], Save [100] [101] [102]]))
            [97] = Some e' \<and>
      url e' = [98] \<and> created_at e' = [99] \<and> 0 \<le> clicks e')"
  using store_entries_persist [where ops = "[Save [97] [98] [99]]" and c = "[97]"
      and e = "\<lparr>url = [98], clicks = 0, created_at = [99]\<rparr>"
      and ops' = "[Incr [97], Save [100] [101] [102]]"]
  by (simp add: run_Cons run_Nil get_url_save_url)

text \<open>
  C4 as stated fails: a second \<open>save_url\<close> of a code that is present replaces its url
  and its creation time and takes its clicks from 1 back to 0.
\<close>

theorem save_url_again_resets_entry:
  "get_url (run init_store [Save [97] [98] [99], Incr [97]]) [97] =
     Some \<lparr>url = [98], clicks = 1, created_at = [99]\<rparr> \<and>
   get_url (run init_store [Save [97] [98] [99], Incr [97], Save [97] [100] [101]]) [97] =
     Some \<lparr>url = [100], clicks = 0, created_at = [101]\<rparr>"
  by (simp add: run_Cons run_Nil get_url_save_url get_url_increment_clicks)

section \<open>Properties of the code generator\<close>

lemma chars_ranges: "chars = [97..<123] @ [65..<91] @ [48..<58]"
  by (simp add: chars_def ascii_letters_def digits_def ustr_def upt_rec_numeral)

lemma length_chars: "length chars = 62"
  unfolding chars_ranges length_append length_upt by simp

lemma set_chars: "c \<in> set chars \<longleftrightarrow> ascii_alnum c"
  unfolding chars_ranges set_append set_upt ascii_alnum_def by auto

lemma distinct_chars: "distinct chars"
  unfolding chars_ranges distinct_append set_upt by auto

lemma random_choice_in_chars: "fst (random_choice g pos) \<in> set chars"
  by (simp add: random_choice_def length_chars)

lemma join_choices_props:
  "join_choices g pos n = (code, pos') \<Longrightarrow>
     length code = n \<and> set code \<subseteq> set chars \<and> pos' = pos + n"
proof (induction n arbitrary: pos code pos')
  case 0
  then show ?case by simp
next
  case (Suc n)
  obtain cs p where rest: "join_choices g (Suc pos) n = (cs, p)"
    by (cases "join_choices g (Suc pos) n")
  from Suc.IH [OF rest] have ih: "length cs = n" "set cs \<subseteq> set chars" "p = Suc pos + n"
    by simp_all
  from Suc.prems rest have "code = fst (random_choice g pos) # cs" "pos' = p"
    by (simp_all add: random_choice_def)
  with ih random_choice_in_chars [of g pos] show ?case
    by simp
qed

lemma attempts_props:
  "attempts k len (Some ex) g pos = (res, pos') \<Longrightarrow>
     (case res of
        Inr code \<Rightarrow>
          length code = nat len \<and> set code \<subseteq> set chars \<and> code \<notin> ex \<and>
          (\<exists>j. 1 \<le> j \<and> j \<le> k \<and> pos' = pos + j * nat len)
      | Inl err \<Rightarrow> err = GenerationExhausted \<and> pos' = pos + k * nat len)"
proof (induction k arbitrary: pos)
  case 0
  then show ?case by auto
next
  case (Suc k)
  obtain code p where drawn: "join_choices g pos (nat len) = (code, p)"
    by (cases "join_choices g pos (nat len)")
  from join_choices_props [OF drawn]
  have code: "length code = nat len" "set code \<subseteq> set chars" and p: "p = pos + nat len"
    by simp_all
  show ?case
  proof (cases "code \<in> ex")
    case False
    with Suc.prems drawn have "res = Inr code" "pos' = p"
      by simp_all
    with code p False show ?thesis
      by (auto intro: exI [of _ 1])
  next
    case True
    with Suc.prems drawn have "attempts k len (Some ex) g p = (res, pos')"
      by simp
    from Suc.IH [OF this] show ?thesis
    proof (cases res)
      case (Inl err)
      with \<open>case res of Inl err \<Rightarrow> _ | Inr code \<Rightarrow> _\<close> p show ?thesis
        by simp
    next
      case (Inr c)
      with \<open>case res of Inl err \<Rightarrow> _ | Inr code \<Rightarrow> _\<close>
      obtain j where "length c = nat len" "set c \<subseteq> set chars" "c \<notin> ex"
        "1 \<le> j" "j \<le> k" "pos' = p + j * nat len"
        by auto
      with Inr p show ?thesis
        by (auto intro!: exI [of _ "Suc j"])
    qed
  qed
qed

text \<open>
  C1. For a length of at least 1 and an exclusion set, \<open>generate_short_code\<close> either
  returns a code of exactly that many characters, all of the 62 letters and digits
  of \<open>chars\<close>, that is not in the exclusion set, having drawn between 1 and 100
  candidates, or fails with \<open>GenerationExhausted\<close> after exactly 100 candidates. It
  never returns a member of the exclusion set.
\<close>

theorem generate_short_code_fresh:
  assumes "1 \<le> len"
  shows "length chars = 62 \<and> distinct chars \<and> list_all ascii_alnum chars \<and>
    (case generate_short_code len (Some ex) g pos of
       (Inr code, pos') \<Rightarrow>
          int (length code) = len \<and> set code \<subseteq> set chars \<and> code \<notin> ex \<and>
          (\<exists>j. 1 \<le> j \<and> j \<le> 100 \<and> pos' = pos + j * nat len)
     | (Inl err, pos') \<Rightarrow> err = GenerationExhausted \<and> pos' = pos + 100 * nat len)"
proof -
  obtain res pos' where run: "generate_short_code len (Some ex) g pos = (res, pos')"
    by (cases "generate_short_code len (Some ex) g pos")
  then have "attempts 100 len (Some ex) g pos = (res, pos')"
    by (simp add: generate_short_code_def max_attempts_def)
  from attempts_props [OF this] assms run
  have "case generate_short_code len (Some ex) g pos of
       (Inr code, pos') \<Rightarrow>
          int (length code) = len \<and> set code \<subseteq> set chars \<and> code \<notin> ex \<and>
          (\<exists>j. 1 \<le> j \<and> j \<le> 100 \<and> pos' = pos + j * nat len)
     | (Inl err, pos') \<Rightarrow> err = GenerationExhausted \<and> pos' = pos + 100 * nat len"
    by (cases res) auto
  moreover have "list_all ascii_alnum chars"
    by (simp add: list_all_iff set_chars)
  ultimately show ?thesis
    by (simp add: length_chars distinct_chars)
qed

theorem generate_short_code_fresh_witness:
  "(1::int) \<le> 6 \<and>
   generate_short_code 6 (Some {ustr ''abcdef''}) id 0 = (Inr (ustr ''ghijkl''), 12) \<and>
   set (ustr ''ghijkl'') \<subseteq> set chars \<and> ustr ''ghijkl'' \<notin> {ustr ''abcdef''}"
proof -
  have run: "generate_short_code 6 (Some {ustr ''abcdef''}) id 0 = (Inr (ustr ''ghijkl''), 12)"
    by code_simp
  from generate_short_code_fresh
    [where len = 6 and ex = "{ustr ''abcdef''}" and g = id and pos = 0]
  show ?thesis
    unfolding run by simp
qed

text \<open>
  C9. With \<open>existing_codes = None\<close> the membership test is not made: the result is the
  first candidate, drawn in the first attempt, for every length and every random
  source; the error cannot occur.
\<close>

theorem generate_short_code_without_exclusion:
  "generate_short_code len None g pos =
     (Inr (fst (join_choices g pos (nat len))), snd (join_choices g pos (nat len)))"
proof -
  have budget: "max_attempts = Suc 99"
    by (simp add: max_attempts_def)
  show ?thesis
    unfolding generate_short_code_def budget attempts.simps by (simp add: split_def Let_def)
qed

section \<open>Properties of the validators\<close>

lemma nullable_lang: "nullable r \<longleftrightarrow> [] \<in> lang r"
  by (induction r) (auto intro: repeats_none)

lemma repeats_Cons:
  "c # w \<in> repeats A \<longleftrightarrow> (\<exists>u v. w = u @ v \<and> c # u \<in> A \<and> v \<in> repeats A)"
proof
  assume "c # w \<in> repeats A"
  then show "\<exists>u v. w = u @ v \<and> c # u \<in> A \<and> v \<in> repeats A"
  proof (induction "c # w" arbitrary: rule: repeats.induct)
    case (repeats_more u v)
    show ?case
    proof (cases u)
      case Nil
      with repeats_more show ?thesis by simp
    next
      case (Cons a u')
      with repeats_more show ?thesis by auto
    qed
  qed
next
  assume "\<exists>u v. w = u @ v \<and> c # u \<in> A \<and> v \<in> repeats A"
  then obtain u v where "w = u @ v" "c # u \<in> A" "v \<in> repeats A" by blast
  then show "c # w \<in> repeats A"
    using repeats_more [of "c # u" A v] by simp
qed

lemma deriv_lang: "w \<in> lang (deriv c r) \<longleftrightarrow> c # w \<in> lang r"
proof (induction r arbitrary: w)
  case (Then a b)
  show ?case
    by (auto simp: Then nullable_lang Cons_eq_append_conv)
next
  case (Many a)
  show ?case
    by (auto simp: Many repeats_Cons)
qed auto

lemma re_match_lang: "re_match r w \<longleftrightarrow> w \<in> lang r"
  by (induction w arbitrary: r) (simp_all add: nullable_lang deriv_lang)

lemma lang_Then: "w \<in> lang (Then a b) \<longleftrightarrow> (\<exists>u v. w = u @ v \<and> u \<in> lang a \<and> v \<in> lang b)"
  by auto

lemma lang_Class: "w \<in> lang (Class P) \<longleftrightarrow> (\<exists>c. w = [c] \<and> P c)"
  by auto

lemma lang_literal: "w \<in> lang (literal p) \<longleftrightarrow> list_all2 ignorecase_eq p w"
proof (induction p arbitrary: w)
  case Nil
  show ?case by simp
next
  case (Cons l ls)
  show ?case
  proof
    assume "w \<in> lang (literal (l # ls))"
    then obtain c v where "w = c # v" "ignorecase_eq l c" "v \<in> lang (literal ls)"
      by auto
    then show "list_all2 ignorecase_eq (l # ls) w"
      by (simp add: Cons)
  next
    assume "list_all2 ignorecase_eq (l # ls) w"
    then obtain c v where w: "w = c # v" and "ignorecase_eq l c" "list_all2 ignorecase_eq ls v"
      by (auto simp: list_all2_Cons1)
    then have "[c] \<in> lang (Class (ignorecase_eq l))" "v \<in> lang (literal ls)"
      by (simp_all add: Cons)
    then have "[c] @ v \<in> lang (Then (Class (ignorecase_eq l)) (literal ls))"
      unfolding lang_Then by blast
    with w show "w \<in> lang (literal (l # ls))"
      by simp
  qed
qed

lemma repeats_Class: "w \<in> repeats {[c] |c. P c} \<longleftrightarrow> list_all P w"
proof (induction w)
  case Nil
  show ?case by (simp add: repeats_none)
next
  case (Cons c w)
  show ?case
    unfolding repeats_Cons by (auto simp: Cons)
qed


lemma ignorecase_eq_plain:
  "\<not> (65 \<le> l \<and> l \<le> 90) \<Longrightarrow> \<not> (97 \<le> l \<and> l \<le> 122) \<Longrightarrow> ignorecase_eq l c \<longleftrightarrow> c = l"
  unfolding ignorecase_eq_def lower_ascii_def by (cases "65 \<le> c \<and> c \<le> 90") auto

lemma sep_literal: "list_all2 ignorecase_eq (ustr ''://'') w \<longleftrightarrow> w = ustr ''://''"
proof -
  have sep: "ustr ''://'' = [58, 47, 47]"
    by (simp add: ustr_def)
  have colon: "ignorecase_eq 58 c \<longleftrightarrow> c = 58" and slash: "ignorecase_eq 47 c \<longleftrightarrow> c = 47" for c
    by (simp_all add: ignorecase_eq_plain)
  show ?thesis
    unfolding sep by (auto simp: list_all2_Cons1 colon slash)
qed

lemma https_literal:
  "list_all2 ignorecase_eq (ustr ''https'') w \<longleftrightarrow>
     (\<exists>u v. w = u @ v \<and> list_all2 ignorecase_eq (ustr ''http'') u \<and>
            list_all2 ignorecase_eq (ustr ''s'') v)"
proof -
  have split: "ustr ''https'' = ustr ''http'' @ ustr ''s''"
    by (simp add: ustr_def)
  show ?thesis
  proof
    assume "list_all2 ignorecase_eq (ustr ''https'') w"
    then show "\<exists>u v. w = u @ v \<and> list_all2 ignorecase_eq (ustr ''http'') u \<and>
        list_all2 ignorecase_eq (ustr ''s'') v"
      unfolding split list_all2_append1 by blast
  next
    assume "\<exists>u v. w = u @ v \<and> list_all2 ignorecase_eq (ustr ''http'') u \<and>
        list_all2 ignorecase_eq (ustr ''s'') v"
    then obtain u v where "w = u @ v" "list_all2 ignorecase_eq (ustr ''http'') u"
        "list_all2 ignorecase_eq (ustr ''s'') v"
      by blast
    then show "list_all2 ignorecase_eq (ustr ''https'') w"
      unfolding split by (simp add: list_all2_appendI)
  qed
qed

lemma scheme_lang:
  "sch \<in> lang (Choice (Then (literal (ustr ''http'')) (optional (literal (ustr ''s''))))
                       (literal (ustr ''ftp''))) \<longleftrightarrow> scheme_ok sch"
proof -
  have "sch \<in> lang (Then (literal (ustr ''http'')) (optional (literal (ustr ''s'')))) \<longleftrightarrow>
        list_all2 ignorecase_eq (ustr ''http'') sch \<or>
        list_all2 ignorecase_eq (ustr ''https'') sch"
    unfolding lang_Then optional_def lang.simps(4) Un_iff lang_literal https_literal
    by auto
  then show ?thesis
    unfolding lang.simps(4) Un_iff scheme_ok_def lang_literal by blast
qed


lemma lang_Then_Class:
  "w \<in> lang (Then (Class P) r) \<longleftrightarrow> (\<exists>c v. w = c # v \<and> P c \<and> v \<in> lang r)"
proof
  assume "w \<in> lang (Then (Class P) r)"
  then show "\<exists>c v. w = c # v \<and> P c \<and> v \<in> lang r" by auto
next
  assume "\<exists>c v. w = c # v \<and> P c \<and> v \<in> lang r"
  then obtain c v where "w = [c] @ v" "[c] \<in> lang (Class P)" "v \<in> lang r" by auto
  then show "w \<in> lang (Then (Class P) r)" unfolding lang_Then by blast
qed

lemma rest_lang:
  "w \<in> lang (Then (Many (Class P)) end_of_string) \<longleftrightarrow>
     (\<exists>rest e. w = rest @ e \<and> list_all P rest \<and> (e = [] \<or> e = [10]))"
  unfolding lang_Then end_of_string_def optional_def lang.simps repeats_Class by auto

lemma url_pattern_lang:
  "s \<in> lang url_pattern \<longleftrightarrow>
     (\<exists>sch c1 c2 rest e. s = sch @ ustr ''://'' @ c1 # c2 # rest @ e \<and> scheme_ok sch \<and>
        first_ok c1 \<and> c2 \<noteq> 10 \<and> list_all (\<lambda>c. \<not> isspace c) rest \<and> (e = [] \<or> e = [10]))"
  (is "?L \<longleftrightarrow> ?R")
proof -
  let ?T4 = "Then (Many (Class (\<lambda>c. \<not> isspace c))) end_of_string"
  let ?T3 = "Then any_char ?T4"
  let ?T2 = "Then (Class (\<lambda>c. \<not> (isspace c \<or> c \<in> set (ustr ''/$.?#'')))) ?T3"
  let ?T1 = "Then (literal (ustr ''://'')) ?T2"
  have t3: "t \<in> lang ?T3 \<longleftrightarrow>
      (\<exists>c2 rest e. t = c2 # rest @ e \<and> c2 \<noteq> 10 \<and> list_all (\<lambda>c. \<not> isspace c) rest \<and>
         (e = [] \<or> e = [10]))" for t
    unfolding any_char_def lang_Then_Class rest_lang by blast
  have t2: "t \<in> lang ?T2 \<longleftrightarrow>
      (\<exists>c1 c2 rest e. t = c1 # c2 # rest @ e \<and> first_ok c1 \<and> c2 \<noteq> 10 \<and>
         list_all (\<lambda>c. \<not> isspace c) rest \<and> (e = [] \<or> e = [10]))" for t
    unfolding lang_Then_Class [of t] t3 first_ok_def by blast
  have t1: "t \<in> lang ?T1 \<longleftrightarrow>
      (\<exists>c1 c2 rest e. t = ustr ''://'' @ c1 # c2 # rest @ e \<and> first_ok c1 \<and> c2 \<noteq> 10 \<and>
         list_all (\<lambda>c. \<not> isspace c) rest \<and> (e = [] \<or> e = [10]))" for t
    unfolding lang_Then [of t] lang_literal sep_literal t2 by blast
  show ?thesis
    unfolding url_pattern_def lang_Then [of s] scheme_lang t1 by blast
qed


lemma strip_Nil: "strip [] = []"
  by (simp add: strip_def)

lemma strip_last: "strip u \<noteq> [] \<Longrightarrow> \<not> isspace (last (strip u))"
proof -
  assume "strip u \<noteq> []"
  then have "dropWhile isspace (rev (dropWhile isspace u)) \<noteq> []"
    by (simp add: strip_def)
  then have "\<not> isspace (hd (dropWhile isspace (rev (dropWhile isspace u))))"
    by (rule hd_dropWhile)
  then show ?thesis
    by (simp add: strip_def last_rev)
qed

lemma strip_id: "s \<noteq> [] \<Longrightarrow> \<not> isspace (hd s) \<Longrightarrow> \<not> isspace (last s) \<Longrightarrow> strip s = s"
proof -
  assume s: "s \<noteq> []" and h: "\<not> isspace (hd s)" and l: "\<not> isspace (last s)"
  from s h have "dropWhile isspace s = s"
    by (cases s) simp_all
  moreover from s l have "dropWhile isspace (rev s) = rev s"
    by (cases "rev s") (simp_all add: last_rev [symmetric] hd_rev)
  ultimately show ?thesis
    by (simp add: strip_def)
qed

lemma is_valid_url_shape:
  "is_valid_url (Str u) \<longleftrightarrow>
     (\<exists>sch c1 c2 rest. strip u = sch @ ustr ''://'' @ c1 # c2 # rest \<and> scheme_ok sch \<and>
        first_ok c1 \<and> c2 \<noteq> 10 \<and> list_all (\<lambda>c. \<not> isspace c) rest)"
  (is "?L \<longleftrightarrow> ?R")
proof
  assume ?L
  then have "strip u \<in> lang url_pattern"
    by (simp add: re_match_lang split: if_splits)
  then obtain sch c1 c2 rest e where
    shape: "strip u = sch @ ustr ''://'' @ c1 # c2 # rest @ e" and
    ok: "scheme_ok sch" "first_ok c1" "c2 \<noteq> 10" "list_all (\<lambda>c. \<not> isspace c) rest" and
    e: "e = [] \<or> e = [10]"
    unfolding url_pattern_lang by blast
  have "e = []"
  proof (rule ccontr)
    assume "e \<noteq> []"
    with e have "e = [10]" by simp
    with shape have "last (strip u) = 10" "strip u \<noteq> []"
      by simp_all
    with strip_last [of u] show False
      by (simp add: isspace_def)
  qed
  with shape ok show ?R
    by auto
next
  assume ?R
  then obtain sch c1 c2 rest where
    shape: "strip u = sch @ ustr ''://'' @ c1 # c2 # rest @ []" and
    ok: "scheme_ok sch" "first_ok c1" "c2 \<noteq> 10" "list_all (\<lambda>c. \<not> isspace c) rest"
    by auto
  then have "strip u \<in> lang url_pattern"
    unfolding url_pattern_lang by blast
  moreover from shape have "u \<noteq> []"
    by (auto simp: strip_Nil)
  ultimately show ?L
    by (simp add: re_match_lang)
qed

text \<open>
  C5, as the pattern behaves. \<open>is_valid_url\<close> holds of a string exactly when the
  string, trimmed of surrounding whitespace, is a scheme \<open>http\<close>, \<open>https\<close> or \<open>ftp\<close> in
  any case, then \<open>://\<close>, then one character that is neither whitespace nor one of
  \<open>/ $ . ? #\<close>, then one further character of any kind except the newline, then
  characters that are not whitespace up to the end.
\<close>

theorem is_valid_url_iff:
  "is_valid_url (Str u) \<longleftrightarrow>
     (\<exists>scheme c1 c2 rest.
        strip u = scheme @ ustr ''://'' @ c1 # c2 # rest \<and>
        (list_all2 ignorecase_eq (ustr ''http'') scheme \<or>
         list_all2 ignorecase_eq (ustr ''https'') scheme \<or>
         list_all2 ignorecase_eq (ustr ''ftp'') scheme) \<and>
        \<not> isspace c1 \<and> c1 \<notin> set (ustr ''/$.?#'') \<and> c2 \<noteq> 10 \<and>
        list_all (\<lambda>c. \<not> isspace c) rest)"
  unfolding is_valid_url_shape scheme_ok_def first_ok_def by blast

text \<open>
  C5 as stated fails: the pattern wants two characters after \<open>://\<close>, so
  \<open>http://a\<close> is rejected though the stated rule accepts it, and the second of them
  may be a space, so \<open>http://a b\<close> is accepted though the stated rule rejects it.
\<close>

theorem is_valid_url_differs_from_claim:
  "claimed_valid_url (ustr ''http://a'') \<and> \<not> is_valid_url (Str (ustr ''http://a'')) \<and>
   \<not> claimed_valid_url (ustr ''http://a b'') \<and> is_valid_url (Str (ustr ''http://a b''))"
  by code_simp

text \<open>
  C6. The five rejected inputs and the accepted input of the test suite.
\<close>

theorem is_valid_url_examples:
  "\<not> is_valid_url (Str (ustr [])) \<and>
   \<not> is_valid_url (Str (ustr ''not-a-url'')) \<and>
   \<not> is_valid_url (Str (ustr ''ftp://'')) \<and>
   \<not> is_valid_url (Str (ustr ''http://'')) \<and>
   \<not> is_valid_url (Str (ustr ''just some text'')) \<and>
   is_valid_url (Str (ustr ''https://www.example.com/very/long/url/path''))"
proof -
  let ?u = "ustr ''https://www.example.com/very/long/url/path''"
  have rejected: "\<not> is_valid_url (Str (ustr [])) \<and>
      \<not> is_valid_url (Str (ustr ''not-a-url'')) \<and>
      \<not> is_valid_url (Str (ustr ''ftp://'')) \<and>
      \<not> is_valid_url (Str (ustr ''http://'')) \<and>
      \<not> is_valid_url (Str (ustr ''just some text''))"
    by code_simp
  have "strip ?u = ?u"
    by (rule strip_id) (simp_all add: ustr_def isspace_def)
  then have "strip ?u = ustr ''https'' @ ustr ''://'' @
      119 # 119 # ustr ''w.example.com/very/long/url/path''"
    by (simp add: ustr_def)
  moreover have "scheme_ok (ustr ''https'')"
    by (simp add: scheme_ok_def ustr_def ignorecase_eq_def)
  moreover have "first_ok 119"
    by (simp add: first_ok_def isspace_def ustr_def)
  moreover have "(119::nat) \<noteq> 10"
    by simp
  moreover have "list_all (\<lambda>c. \<not> isspace c) (ustr ''w.example.com/very/long/url/path'')"
    by (simp add: ustr_def isspace_def)
  ultimately have "is_valid_url (Str ?u)"
    unfolding is_valid_url_shape by blast
  with rejected show ?thesis
    by blast
qed

text \<open>
  C7, as the code behaves. \<open>validate_short_code\<close> holds exactly of the strings of six
  characters that \<open>str.isalnum\<close> accepts; on ASCII characters those are the letters and
  digits of \<open>chars\<close>, so on an ASCII string it holds exactly when the string has six
  characters, all of them in \<open>[A-Za-z0-9]\<close>.
\<close>

theorem validate_short_code_iff:
  "(validate_short_code ucd s \<longleftrightarrow> length s = 6 \<and> list_all (isalnum_char ucd) s) \<and>
   (list_all (\<lambda>c. c < 128) s \<longrightarrow>
      (validate_short_code ucd s \<longleftrightarrow> length s = 6 \<and> list_all ascii_alnum s))"
proof -
  have general: "validate_short_code ucd s \<longleftrightarrow> length s = 6 \<and> list_all (isalnum_char ucd) s"
    by (auto simp: validate_short_code_def isalnum_def)
  have "list_all (isalnum_char ucd) s = list_all ascii_alnum s" if "list_all (\<lambda>c. c < 128) s"
    using that by (induction s) (simp_all add: isalnum_char_def)
  with general show ?thesis
    by simp
qed

theorem validate_short_code_iff_witness:
  "list_all (\<lambda>c. c < 128) (ustr ''abc123'') \<and> validate_short_code latin1_alnum (ustr ''abc123'') \<and>
   list_all (\<lambda>c. c < 128) (ustr ''ab@123'') \<and> \<not> validate_short_code latin1_alnum (ustr ''ab@123'')"
  using validate_short_code_iff [of latin1_alnum "ustr ''abc123''"]
    validate_short_code_iff [of latin1_alnum "ustr ''ab@123''"]
  by (simp add: ustr_def ascii_alnum_def isalnum_char_def)

text \<open>
  C7 as stated fails: six times the letter U+00E9 is a string of six alphanumeric
  characters for \<open>str.isalnum\<close>, and none of them is in \<open>[A-Za-z0-9]\<close>.
\<close>

theorem validate_short_code_accepts_non_ascii:
  "validate_short_code latin1_alnum [233, 233, 233, 233, 233, 233] \<and>
   \<not> (length [233, 233, 233, 233, 233, 233 :: nat] = 6 \<and>
      list_all ascii_alnum [233, 233, 233, 233, 233, 233])"
  by (simp add: validate_short_code_def isalnum_def isalnum_char_def latin1_alnum_def
      ascii_alnum_def)

section \<open>Properties of the HTTP handlers\<close>

text \<open>
  C8, as the handlers behave. A shorten request whose url fails \<open>is_valid_url\<close> gets
  400 and changes nothing. A redirect or stats request whose code fails
  \<open>validate_short_code\<close> gets 404, and so does one whose code is well formed and
  absent; neither changes anything. When the url is valid and the generator returns a
  code, shorten answers 201 with \<open>short_code\<close> and \<open>short_url\<close> and saves the url under
  the code. For a well-formed code that is present, stats answers 200 with \<open>url\<close>,
  \<open>clicks\<close> and \<open>created_at\<close>, and redirect answers 302 to the stored url and counts
  one click.
\<close>

theorem http_status_codes:
  "(map_of d (ustr ''url'') = Some v \<longrightarrow> \<not> is_valid_url v \<longrightarrow>
      shorten_url g host_url now (Some d) st =
        (JsonResponse [(''error'', Str (ustr ''Invalid URL format''))] 400, st)) \<and>
   (\<not> validate_short_code ucd c \<longrightarrow>
      redirect_url ucd c st =
        (JsonResponse [(''error'', Str (ustr ''Invalid short code format''))] 404, st) \<and>
      get_stats ucd c st =
        (JsonResponse [(''error'', Str (ustr ''Invalid short code format''))] 404, st)) \<and>
   (validate_short_code ucd c \<longrightarrow> get_url (url_store st) c = None \<longrightarrow>
      redirect_url ucd c st =
        (JsonResponse [(''error'', Str (ustr ''Short code not found''))] 404, st) \<and>
      get_stats ucd c st =
        (JsonResponse [(''error'', Str (ustr ''Short code not found''))] 404, st)) \<and>
   (map_of d (ustr ''url'') = Some (Str u) \<longrightarrow> is_valid_url (Str u) \<longrightarrow>
    generate_short_code 6 (Some (set (map fst (urls (url_store st))))) g (rng_pos st) =
      (Inr code, pos') \<longrightarrow>
      shorten_url g host_url now (Some d) st =
        (JsonResponse [(''short_code'', Str code), (''short_url'', Str (host_url @ code))] 201,
         st\<lparr>url_store := save_url (url_store st) code u now, rng_pos := pos'\<rparr>)) \<and>
   (validate_short_code ucd c \<longrightarrow> get_url (url_store st) c = Some e \<longrightarrow>
      get_stats ucd c st =
        (JsonResponse [(''url'', Str (url e)), (''clicks'', Num (clicks e)),
                       (''created_at'', Str (created_at e))] 200, st) \<and>
      redirect_url ucd c st =
        (RedirectResponse (url e) 302,
         st\<lparr>url_store := snd (increment_clicks (url_store st) c)\<rparr>))"
  by (simp add: shorten_url_def redirect_url_def get_stats_def)

theorem http_status_codes_witness:
  "shorten_url id (ustr ''http://h/'') (ustr ''t0'') (Some [(ustr ''url'', Str (ustr ''http://''))])
      init_app =
     (JsonResponse [(''error'', Str (ustr ''Invalid URL format''))] 400, init_app) \<and>
   get_stats latin1_alnum (ustr ''abc'') init_app =
     (JsonResponse [(''error'', Str (ustr ''Invalid short code format''))] 404, init_app) \<and>
   redirect_url latin1_alnum (ustr ''xyz123'') init_app =
     (JsonResponse [(''error'', Str (ustr ''Short code not found''))] 404, init_app) \<and>
   shorten_url id (ustr ''http://h/'') (ustr ''t0'') (Some [(ustr ''url'', Str (ustr ''http://ab''))])
      init_app =
     (JsonResponse [(''short_code'', Str (ustr ''abcdef'')),
                    (''short_url'', Str (ustr ''http://h/'' @ ustr ''abcdef''))] 201,
      init_app\<lparr>url_store := save_url init_store (ustr ''abcdef'') (ustr ''http://ab'') (ustr ''t0''),
               rng_pos := 6\<rparr>) \<and>
   get_stats latin1_alnum (ustr ''abcdef'')
      (init_app\<lparr>url_store := save_url init_store (ustr ''abcdef'') (ustr ''http://ab'') (ustr ''t0'')\<rparr>) =
     (JsonResponse [(''url'', Str (ustr ''http://ab'')), (''clicks'', Num 0),
                    (''created_at'', Str (ustr ''t0''))] 200,
      init_app\<lparr>url_store := save_url init_store (ustr ''abcdef'') (ustr ''http://ab'') (ustr ''t0'')\<rparr>)"
proof -
  let ?st = "init_app\<lparr>url_store :=
    save_url init_store (ustr ''abcdef'') (ustr ''http://ab'') (ustr ''t0'')\<rparr>"
  have field: "map_of [(ustr ''url'', v)] (ustr ''url'') = Some v" for v :: pyval
    by simp
  have bad_url: "\<not> is_valid_url (Str (ustr ''http://''))"
    by code_simp
  have good_url: "is_valid_url (Str (ustr ''http://ab''))"
    by code_simp
  have bad_code: "\<not> validate_short_code latin1_alnum (ustr ''abc'')"
    by (simp add: validate_short_code_def ustr_def)
  have good_code: "validate_short_code latin1_alnum (ustr ''xyz123'')"
    "validate_short_code latin1_alnum (ustr ''abcdef'')"
    by (simp_all add: validate_short_code_def isalnum_def isalnum_char_def ascii_alnum_def
        ustr_def)
  have absent: "get_url (url_store init_app) (ustr ''xyz123'') = None"
    by (simp add: init_app_def init_store_def get_url_def)
  have drawn: "generate_short_code 6 (Some (set (map fst (urls (url_store init_app))))) id
      (rng_pos init_app) = (Inr (ustr ''abcdef''), 6)"
    by code_simp
  have present: "get_url (url_store ?st) (ustr ''abcdef'') =
      Some \<lparr>url = ustr ''http://ab'', clicks = 0, created_at = ustr ''t0''\<rparr>"
    by (simp add: get_url_save_url)
  note invalid = http_status_codes [THEN conjunct1, rule_format, OF field bad_url]
  note malformed = http_status_codes
    [THEN conjunct2, THEN conjunct1, rule_format, OF bad_code, THEN conjunct2]
  note missing = http_status_codes
    [THEN conjunct2, THEN conjunct2, THEN conjunct1, rule_format, OF good_code(1) absent,
      THEN conjunct1]
  note created = http_status_codes
    [THEN conjunct2, THEN conjunct2, THEN conjunct2, THEN conjunct1, rule_format,
      OF field good_url drawn]
  note stats = http_status_codes
    [THEN conjunct2, THEN conjunct2, THEN conjunct2, THEN conjunct2, rule_format,
      OF good_code(2) present, THEN conjunct1]
  from invalid malformed missing created stats show ?thesis
    by (simp add: init_app_def)
qed

text \<open>
  C8 as stated fails: a redirect or stats request with a malformed code is answered
  404, not 400.
\<close>

theorem malformed_code_gets_404:
  "\<not> validate_short_code latin1_alnum (ustr ''abc'') \<and>
   status (fst (redirect_url latin1_alnum (ustr ''abc'') init_app)) = 404 \<and>
   status (fst (get_stats latin1_alnum (ustr ''abc'') init_app)) = 404"
  by (simp add: redirect_url_def get_stats_def validate_short_code_def ustr_def)

end
